theory Spec2Isabelle
  imports Main
begin

section \<open>Text, slicing and the chunker\<close>

text \<open>
  A Python \<open>str\<close> is a sequence of Unicode code points. The chunker only slices and
  measures its argument, so it is modelled over lists of any element type; the normalizer
  inspects characters and works on code points (Python's \<open>ord\<close>).
\<close>

type_synonym codepoint = nat
type_synonym pytext = "codepoint list"

definition str :: "string \<Rightarrow> pytext" where
  "str s = map of_char s"

text \<open>
  Python's slice \<open>xs[start:end]\<close> for integer bounds: a negative bound counts from the
  end, both bounds are clamped to \<open>0..len(xs)\<close>, and the slice is empty when the
  lower bound is not below the upper one.
\<close>

definition py_slice :: "'a list \<Rightarrow> int \<Rightarrow> int \<Rightarrow> 'a list" where
  "py_slice xs start end =
     (let n = int (length xs);
          lo = (if start < 0 then max (start + n) 0 else min start n);
          hi = (if end < 0 then max (end + n) 0 else min end n)
      in take (nat (hi - lo)) (drop (nat lo) xs))"

text \<open>
  The \<open>while start < len(text)\<close> loop of \<open>chunk_text\<close>. Nothing in the source bounds
  the number of iterations, so the loop is a partial function: \<open>None\<close> is the run that
  never returns. \<open>chunk_size\<close> and \<open>overlap\<close> are Python integers of either sign.
\<close>

partial_function (option) chunk_loop ::
  "'a list \<Rightarrow> int \<Rightarrow> int \<Rightarrow> 'a list list \<Rightarrow> int \<Rightarrow> 'a list list option" where
  "chunk_loop text chunk_size overlap chunks start =
     (if start < int (length text) then
        (let end = start + chunk_size;
             chunk = py_slice text start end
         in chunk_loop text chunk_size overlap (chunks @ [chunk]) (end - overlap))
      else Some chunks)"

declare chunk_loop.simps [code]

definition chunk_text :: "'a list \<Rightarrow> int \<Rightarrow> int \<Rightarrow> 'a list list option" where
  "chunk_text text chunk_size overlap = chunk_loop text chunk_size overlap [] 0"

text \<open>
  The windows as the specification words them: \<open>start\<^sub>0 = 0\<close>,
  \<open>start\<^sub>i\<^sub>+\<^sub>1 = start\<^sub>i + chunk_size - overlap\<close>, window \<open>i\<close> covers
  \<open>[start\<^sub>i, start\<^sub>i + chunk_size)\<close> cut at the end of the text, and the windows are
  those met before the first start at or beyond the length of the text.
\<close>

primrec window_start :: "int \<Rightarrow> int \<Rightarrow> nat \<Rightarrow> int" where
  "window_start chunk_size overlap 0 = 0"
| "window_start chunk_size overlap (Suc i) = window_start chunk_size overlap i + chunk_size - overlap"

definition spec_windows :: "'a list \<Rightarrow> int \<Rightarrow> int \<Rightarrow> 'a list list" where
  "spec_windows text chunk_size overlap =
     map (\<lambda>i. take (nat chunk_size) (drop (nat (window_start chunk_size overlap i)) text))
       (takeWhile (\<lambda>i. window_start chunk_size overlap i < int (length text)) [0..<length text])"

text \<open>The same windows over natural numbers, with their number in closed form.\<close>

definition windows :: "'a list \<Rightarrow> nat \<Rightarrow> nat \<Rightarrow> 'a list list" where
  "windows text c step =
     map (\<lambda>i. take c (drop (i * step) text)) [0..<(length text + step - 1) div step]"

section \<open>Regular-expression substitution and the normalizer\<close>

text \<open>
  \<open>re.sub(pattern, repl, s)\<close> scans \<open>s\<close> from the left; at each position it tries
  the pattern, and on a match it emits the replacement and resumes after the matched
  text, otherwise it copies one character. A matcher gives, for a match that starts at
  the head of its argument, the replacement and the text after the match. No pattern of
  \<open>clean_up_text\<close> matches the empty string, so the text after a match is always
  shorter; the length test only makes that visible to the termination proof.
\<close>

type_synonym 'a matcher = "'a list \<Rightarrow> ('a list \<times> 'a list) option"

function re_sub :: "'a matcher \<Rightarrow> 'a list \<Rightarrow> 'a list" where
  "re_sub m [] = []"
| "re_sub m (c # cs) =
     (case m (c # cs) of
        None \<Rightarrow> c # re_sub m cs
      | Some (repl, rest) \<Rightarrow>
          if length rest \<le> length cs then repl @ re_sub m rest else c # re_sub m cs)"
  by pat_completeness auto
termination
  by (relation "measure (\<lambda>(m, s). length s)") auto

text \<open>
  The character classes \<open>\w\<close>, \<open>\d\<close> and \<open>\s\<close> of a \<open>str\<close> pattern are read from
  the Unicode tables of the Python runtime, which are not part of the repository: they
  are a parameter. \<open>\w\<close> is an alphanumeric character or the underscore, \<open>\d\<close> a
  decimal digit, \<open>\s\<close> a whitespace character.
\<close>

record unicode_tables =
  isalnum :: "codepoint \<Rightarrow> bool"
  isdecimal :: "codepoint \<Rightarrow> bool"
  isspace :: "codepoint \<Rightarrow> bool"

definition re_w :: "unicode_tables \<Rightarrow> codepoint \<Rightarrow> bool" where
  "re_w U c = (isalnum U c \<or> c = 95)"

definition re_s :: "unicode_tables \<Rightarrow> codepoint \<Rightarrow> bool" where
  "re_s U c = isspace U c"

text \<open>The class \<open>[\dA-Fa-f]\<close>.\<close>

definition re_hex :: "unicode_tables \<Rightarrow> codepoint \<Rightarrow> bool" where
  "re_hex U c = (isdecimal U c \<or> (65 \<le> c \<and> c \<le> 70) \<or> (97 \<le> c \<and> c \<le> 102))"

text \<open>
  The tables restricted to ASCII, where they are \<open>[0-9A-Za-z]\<close>, \<open>[0-9]\<close> and the
  characters 9 to 13 and 28 to 32.
\<close>

definition ascii_tables :: unicode_tables where
  "ascii_tables =
     \<lparr> isalnum = (\<lambda>c. (48 \<le> c \<and> c \<le> 57) \<or> (65 \<le> c \<and> c \<le> 90) \<or> (97 \<le> c \<and> c \<le> 122)),
       isdecimal = (\<lambda>c. 48 \<le> c \<and> c \<le> 57),
       isspace = (\<lambda>c. (9 \<le> c \<and> c \<le> 13) \<or> (28 \<le> c \<and> c \<le> 32)) \<rparr>"


text \<open>A pattern without metacharacters, replaced by the empty string.\<close>

definition m_literal :: "'a list \<Rightarrow> 'a matcher" where
  "m_literal pat s =
     (if pat \<noteq> [] \<and> take (length pat) s = pat then Some ([], drop (length pat) s) else None)"

text \<open>\<open>(\w+)-\n(\w+)\<close> replaced by \<open>\1\2\<close>: 45 is the hyphen, 10 the line feed.\<close>

definition m_hyphen_break :: "unicode_tables \<Rightarrow> codepoint matcher" where
  "m_hyphen_break U s =
     (let g1 = takeWhile (re_w U) s;
          r1 = dropWhile (re_w U) s;
          g2 = takeWhile (re_w U) (drop 2 r1)
      in if g1 \<noteq> [] \<and> take 2 r1 = [45, 10] \<and> g2 \<noteq> []
         then Some (g1 @ g2, dropWhile (re_w U) (drop 2 r1)) else None)"

text \<open>
  \<open>\\u[\dA-Fa-f]{4}\<close> replaced by the empty string: a backslash (92), the letter u
  (117) and four characters of the class.
\<close>

definition m_u_escape :: "unicode_tables \<Rightarrow> codepoint matcher" where
  "m_u_escape U s =
     (if take 2 s = [92, 117] \<and> length (take 4 (drop 2 s)) = 4 \<and>
         list_all (re_hex U) (take 4 (drop 2 s))
      then Some ([], drop 6 s) else None)"

text \<open>\<open>(\w)\s*-\s*(\w)\<close> replaced by \<open>\1-\2\<close>.\<close>

definition m_hyphen_space :: "unicode_tables \<Rightarrow> codepoint matcher" where
  "m_hyphen_space U s =
     (case s of
        [] \<Rightarrow> None
      | c # r \<Rightarrow>
          if re_w U c then
            (case dropWhile (re_s U) r of
               [] \<Rightarrow> None
             | h # r2 \<Rightarrow>
                 if h = 45 then
                   (case dropWhile (re_s U) r2 of
                      [] \<Rightarrow> None
                    | d # r3 \<Rightarrow> if re_w U d then Some ([c, 45, d], r3) else None)
                 else None)
          else None)"

text \<open>\<open>\s+\<close> replaced by one space (32).\<close>

definition m_whitespace :: "unicode_tables \<Rightarrow> codepoint matcher" where
  "m_whitespace U s =
     (case s of
        [] \<Rightarrow> None
      | c # r \<Rightarrow> if re_s U c then Some ([32], dropWhile (re_s U) r) else None)"

text \<open>
  The list \<open>unwanted_patterns\<close>, in the source's order: the regular expression
  \<open>\n\<close> (a line feed), two spaces and an em dash (U+2014 is 8212), runs of ten, nine
  and five em dashes, the escape pattern, and the private-use characters U+F075 (61557)
  and U+F0B7 (61623).
\<close>

definition unwanted_patterns :: "unicode_tables \<Rightarrow> codepoint matcher list" where
  "unwanted_patterns U =
     [m_literal [10], m_literal [32, 32, 8212],
      m_literal [8212, 8212, 8212, 8212, 8212, 8212, 8212, 8212, 8212, 8212],
      m_literal [8212, 8212, 8212, 8212, 8212, 8212, 8212, 8212, 8212],
      m_literal [8212, 8212, 8212, 8212, 8212],
      m_u_escape U, m_literal [61557], m_literal [61623]]"

definition clean_up_text :: "unicode_tables \<Rightarrow> pytext \<Rightarrow> pytext" where
  "clean_up_text U content =
     (let content = re_sub (m_hyphen_break U) content;
          content = foldl (\<lambda>content pattern. re_sub pattern content) content (unwanted_patterns U);
          content = re_sub (m_hyphen_space U) content;
          content = re_sub (m_whitespace U) content
      in content)"

section \<open>The document source and the representation fetcher\<close>

text \<open>
  What the fetcher reads of a file object: its id, its name, its creation date and the
  entries of its representations (\<open>None\<close> when \<open>file.representations\<close> or its
  \<open>entries\<close> is absent, which Python's \<open>and\<close> treats like the empty list). An entry
  carries its kind \<open>rep.representation\<close>, its readiness \<open>rep.status.state\<close>, which the
  source never reads, and \<open>rep.content.url_template\<close>.
\<close>

record box_representation =
  representation :: string
  status_state :: string
  url_template :: string

record box_file =
  id_f :: string
  name :: string
  created_at :: string
  representations :: "box_representation list option"

record response =
  status_code :: int
  response_text :: pytext

text \<open>
  The exceptions of the ingestion path: the two \<open>ValueError\<close>s of
  \<open>get_file_text_content\<close> with the values their messages are formatted from, the
  \<open>HTTPError\<close> of \<open>raise_for_status\<close>, a failure raised by a call to the document
  source itself, and the \<open>TypeError\<close> of \<open>len(None)\<close>.
\<close>

datatype error =
    NotReady string
  | RetriesExhausted string int
  | HTTPError int
  | SourceError string
  | TypeError

text \<open>
  The document source is outside the program. Its answer to a metadata lookup or to a
  download may change from one call to the next, so both are functions of the number of
  calls made before.
\<close>

record service =
  get_file_by_id :: "nat \<Rightarrow> string \<Rightarrow> error + box_file"
  requests_get :: "nat \<Rightarrow> string \<Rightarrow> error + response"
  token :: string

text \<open>The lines the program prints, with the values they are formatted from.\<close>

datatype log_line =
    NotReadyLine string
  | ErrorProcessing string error

record world =
  lookups :: nat
  downloads :: nat
  stdout :: "log_line list"

definition download_url :: "service \<Rightarrow> box_representation \<Rightarrow> string" where
  "download_url svc rep =
     re_sub (m_literal ''{+asset_path}'') (url_template rep) @ ''?access_token='' @ token svc"

definition raise_for_status :: "response \<Rightarrow> error + unit" where
  "raise_for_status r =
     (if 400 \<le> status_code r \<and> status_code r < 600 then Inl (HTTPError (status_code r))
      else Inr ())"

text \<open>
  The body of \<open>for rep in file.representations.entries\<close>. Both branches leave the
  function, so only the first entry is ever looked at.
\<close>

definition first_entry ::
  "unicode_tables \<Rightarrow> service \<Rightarrow> box_file \<Rightarrow> box_representation \<Rightarrow> world \<Rightarrow>
   (error + pytext option) \<times> world" where
  "first_entry U svc file rep w =
     (if representation rep = ''extracted_text'' then
        (let w1 = w\<lparr>downloads := Suc (downloads w)\<rparr> in
         case requests_get svc (downloads w) (download_url svc rep) of
           Inl e \<Rightarrow> (Inl e, w1)
         | Inr r \<Rightarrow>
             (case raise_for_status r of
                Inl e \<Rightarrow> (Inl e, w1)
              | Inr _ \<Rightarrow> (Inr (Some (clean_up_text U (response_text r))), w1)))
      else (Inl (NotReady (id_f file)), w\<lparr>stdout := stdout w @ [NotReadyLine (id_f file)]\<rparr>))"

text \<open>
  \<open>for attempt in range(max_retries)\<close>: \<open>file\<close> is rebound to the object the lookup
  returns, and falling out of the loop returns Python's \<open>None\<close>. \<open>delay\<close> is in scope
  and never used.
\<close>

function fetch_loop ::
  "unicode_tables \<Rightarrow> service \<Rightarrow> int \<Rightarrow> int \<Rightarrow> int \<Rightarrow> box_file \<Rightarrow> world \<Rightarrow>
   (error + pytext option) \<times> world" where
  "fetch_loop U svc max_retries delay attempt file w =
     (if attempt < max_retries then
        (let w1 = w\<lparr>lookups := Suc (lookups w)\<rparr> in
         case get_file_by_id svc (lookups w) (id_f file) of
           Inl e \<Rightarrow> (Inl e, w1)
         | Inr file' \<Rightarrow>
             (case representations file' of
                Some (rep # entries) \<Rightarrow> first_entry U svc file' rep w1
              | _ \<Rightarrow>
                  if attempt = max_retries - 1
                  then (Inl (RetriesExhausted (name file') max_retries), w1)
                  else fetch_loop U svc max_retries delay (attempt + 1) file' w1))
      else (Inr None, w))"
  by pat_completeness auto
termination
  by (relation "measure (\<lambda>(U, svc, max_retries, delay, attempt, file, w). nat (max_retries - attempt))")
     auto

declare fetch_loop.simps [simp del]

definition get_file_text_content ::
  "unicode_tables \<Rightarrow> service \<Rightarrow> box_file \<Rightarrow> int \<Rightarrow> int \<Rightarrow> world \<Rightarrow>
   (error + pytext option) \<times> world" where
  "get_file_text_content U svc file max_retries delay w =
     fetch_loop U svc max_retries delay 0 file w"

section \<open>The ingestion pipeline\<close>

record chunk_record =
  file_id :: string
  file_name :: string
  chunk_index :: int
  content :: pytext
  created_date :: string




section \<open>Notions used to state the claims\<close>

text \<open>
  An attempt that finds nothing to download: the looked-up file has no representation
  entries. This is the only observation after which the loop goes round again.
\<close>

definition no_entries :: "box_file \<Rightarrow> bool" where
  "no_entries f = (representations f = None \<or> representations f = Some [])"


section \<open>Notions used in the proofs about the normalizer\<close>

text \<open>
  A matcher that only gives back characters of its argument, or a space, and whose
  remaining text is part of its argument.
\<close>

definition benign :: "codepoint matcher \<Rightarrow> bool" where
  "benign m = (\<forall>t repl rest. m t = Some (repl, rest) \<longrightarrow>
                 set repl \<subseteq> set t \<union> {32} \<and> set rest \<subseteq> set t)"





section \<open>Example sources\<close>

text \<open>
  Document sources for the worked examples: every file \<open>i\<close> is named \<open>i.txt\<close>, every
  download succeeds with status 200, and the representation entries listed at lookup
  \<open>k\<close> for file \<open>i\<close> are given by the argument.
\<close>

definition w0 :: world where
  "w0 = \<lparr> lookups = 0, downloads = 0, stdout = [] \<rparr>"

definition rep_of :: "string \<Rightarrow> string \<Rightarrow> box_representation" where
  "rep_of kind state =
     \<lparr> representation = kind, status_state = state, url_template = ''u/{+asset_path}'' \<rparr>"

definition doc :: "string \<Rightarrow> string \<Rightarrow> box_representation list option \<Rightarrow> box_file" where
  "doc i n reps = \<lparr> id_f = i, name = n, created_at = ''2024'', representations = reps \<rparr>"

definition source_of :: "(nat \<Rightarrow> string \<Rightarrow> box_representation list option) \<Rightarrow> service" where
  "source_of entries =
     \<lparr> get_file_by_id = (\<lambda>k i. Inr (doc i (i @ ''.txt'') (entries k i))),
       requests_get = (\<lambda>k u. Inr \<lparr> status_code = 200, response_text = str ''text of '' @ str u \<rparr>),
       token = ''t'' \<rparr>"

text \<open>No entry at the first four lookups, a ready text representation from the fifth on.\<close>

definition flaky_source :: service where
  "flaky_source =
     source_of (\<lambda>k i. if k < 4 then Some [] else Some [rep_of ''extracted_text'' ''success''])"

text \<open>Never any entry.\<close>

definition empty_source :: service where
  "empty_source = source_of (\<lambda>k i. Some [])"

text \<open>Always a text representation whose state is pending.\<close>

definition pending_source :: service where
  "pending_source = source_of (\<lambda>k i. Some [rep_of ''extracted_text'' ''pending''])"

text \<open>Always a pending representation of another kind.\<close>

definition other_kind_source :: service where
  "other_kind_source = source_of (\<lambda>k i. Some [rep_of ''pdf'' ''pending''])"

text \<open>File 2 never has an entry, every other file has a ready text representation.\<close>

definition three_doc_source :: service where
  "three_doc_source =
     source_of (\<lambda>k i. if i = ''2'' then Some [] else Some [rep_of ''extracted_text'' ''success''])"

text \<open>
  File 2 always lists a pending representation of another kind, every other file has a
  ready text representation.
\<close>

definition three_doc_other_kind_source :: service where
  "three_doc_other_kind_source =
     source_of (\<lambda>k i. if i = ''2'' then Some [rep_of ''pdf'' ''pending'']
                       else Some [rep_of ''extracted_text'' ''success''])"


section \<open>Properties of the chunker\<close>

subsection \<open>The loop and its windows\<close>

lemma py_slice_window:
  "0 \<le> chunk_size \<Longrightarrow> py_slice text (int s) (int s + chunk_size) = take (nat chunk_size) (drop s text)"
proof -
  assume cs: "0 \<le> chunk_size"
  have a: "nat (int s + chunk_size) - s = nat chunk_size" using cs by simp
  show ?thesis
  proof (cases "s \<le> length text")
    case True
    show ?thesis
    proof (cases "int s + chunk_size \<le> int (length text)")
      case True
      then show ?thesis using cs \<open>s \<le> length text\<close> a
        by (simp add: py_slice_def Let_def min_def nat_diff_distrib)
    next
      case False
      then have "length text - s \<le> nat chunk_size" by simp
      then show ?thesis using cs \<open>s \<le> length text\<close> False
        by (simp add: py_slice_def Let_def min_def)
    qed
  next
    case False
    then show ?thesis using cs
      by (simp add: py_slice_def Let_def min_def)
  qed
qed

lemma window_count_0: "0 < step \<Longrightarrow> (step - Suc 0) div step = 0"
  by simp

lemma window_count_Suc:
  assumes "0 < step" "s < (n::nat)"
  shows "(n - s + step - 1) div step = Suc ((n - (s + step) + step - 1) div step)"
proof (cases "s + step \<le> n")
  case True
  then have "n - s + step - 1 = (n - (s + step) + step - 1) + step"
    using assms by linarith
  then show ?thesis using assms(1) by (simp only: div_add_self2) 
next
  case False
  then have z: "n - (s + step) = 0" by linarith
  have "(n - s + step - 1) div step = 1"
  proof (rule div_nat_eqI)
    show "step * 1 \<le> n - s + step - 1" using assms by simp
    show "n - s + step - 1 < step * Suc 1" using assms False by simp
  qed
  moreover have "(step - 1) div step = 0" using assms(1) by simp
  ultimately show ?thesis by (simp only: z add_0 One_nat_def)
qed

lemma chunk_loop_windows:
  assumes "overlap < chunk_size" "0 \<le> chunk_size"
  shows "chunk_loop text chunk_size overlap chunks (int s) =
         Some (chunks @ map (\<lambda>i. take (nat chunk_size) (drop (s + i * nat (chunk_size - overlap)) text))
                          [0..<(length text - s + nat (chunk_size - overlap) - 1) div nat (chunk_size - overlap)])"
proof (induction "length text - s" arbitrary: s chunks rule: less_induct)
  case less
  let ?step = "nat (chunk_size - overlap)"
  let ?w = "\<lambda>j. take (nat chunk_size) (drop j text)"
  have pos: "0 < ?step" using assms by simp
  show ?case
  proof (cases "s < length text")
    case False
    then have "chunk_loop text chunk_size overlap chunks (int s) = Some chunks"
      by (subst chunk_loop.simps) simp
    moreover have "length text - s = 0" using False by simp
    moreover have "(?step - 1) div ?step = 0" using pos by simp
    ultimately show ?thesis by (simp only: add_0 upt_0 list.map append_Nil2)
  next
    case True
    have eq: "int s + chunk_size - overlap = int (s + ?step)" using assms by linarith
    have "chunk_loop text chunk_size overlap chunks (int s) =
          chunk_loop text chunk_size overlap (chunks @ [py_slice text (int s) (int s + chunk_size)])
             (int s + chunk_size - overlap)"
      using True by (subst chunk_loop.simps) (simp add: Let_def)
    also have "\<dots> = chunk_loop text chunk_size overlap (chunks @ [?w s]) (int (s + ?step))"
      by (simp only: py_slice_window[OF assms(2)] eq)
    also have "\<dots> = Some ((chunks @ [?w s]) @
        map (\<lambda>i. ?w (s + ?step + i * ?step)) [0..<(length text - (s + ?step) + ?step - 1) div ?step])"
    proof (rule less)
      show "length text - (s + ?step) < length text - s" using True pos by linarith
    qed
    also have "\<dots> = Some (chunks @ map (\<lambda>i. ?w (s + i * ?step))
          [0..<(length text - s + ?step - 1) div ?step])"
      unfolding window_count_Suc[OF pos True] map_upt_Suc
      by (simp add: add.assoc)
    finally show ?thesis .
  qed
qed

lemma chunk_text_eq_windows:
  assumes "overlap < chunk_size" "0 \<le> chunk_size"
  shows "chunk_text text chunk_size overlap = Some (windows text (nat chunk_size) (nat (chunk_size - overlap)))"
proof -
  have "chunk_loop text chunk_size overlap [] (int 0) =
     Some ([] @ map (\<lambda>i. take (nat chunk_size) (drop (0 + i * nat (chunk_size - overlap)) text))
        [0..<(length text - 0 + nat (chunk_size - overlap) - 1) div nat (chunk_size - overlap)])"
    using assms by (rule chunk_loop_windows)
  then show ?thesis by (simp add: chunk_text_def windows_def)
qed

lemma chunk_loop_diverges:
  assumes "chunk_loop text chunk_size overlap chunks start = Some y"
  shows "chunk_size \<le> overlap \<longrightarrow> \<not> start < int (length text)"
proof (rule chunk_loop.raw_induct[where P = "\<lambda>text chunk_size overlap chunks start y.
        chunk_size \<le> overlap \<longrightarrow> \<not> start < int (length text)", OF _ assms], goal_cases)
  case (1 f T cs ov chunks start y)
  show ?case
  proof (intro impI notI)
    assume le: "cs \<le> ov" and lt: "start < int (length T)"
    from 1(2) lt have "f T cs ov (chunks @ [py_slice T start (start + cs)]) (start + cs - ov) = Some y"
      by (simp add: Let_def)
    from 1(1)[OF this] le have "\<not> start + cs - ov < int (length T)" by simp
    with le lt show False by simp
  qed
qed

lemma chunk_text_diverges:
  assumes "chunk_size \<le> overlap" "text \<noteq> []"
  shows "chunk_text text chunk_size overlap = None"
proof (cases "chunk_text text chunk_size overlap")
  case (Some y)
  then show ?thesis using chunk_loop_diverges[of "text" chunk_size overlap "[]" 0 y] assms
    by (simp add: chunk_text_def)
qed simp

lemma window_count_bound:
  assumes "0 < step"
  shows "i < (n + step - 1) div step \<longleftrightarrow> i * step < (n::nat)"
proof -
  have "i < (n + step - 1) div step \<longleftrightarrow> Suc i \<le> (n + step - 1) div step" by auto
  also have "\<dots> \<longleftrightarrow> Suc i * step \<le> n + step - 1"
    using assms by (simp only: less_eq_div_iff_mult_less_eq)
  also have "\<dots> \<longleftrightarrow> i * step < n" using assms by auto
  finally show ?thesis .
qed

lemma window_count_covers:
  assumes "0 < step"
  shows "(n::nat) \<le> ((n + step - 1) div step) * step"
proof -
  have "\<not> ((n + step - 1) div step) * step < n"
    using window_count_bound[OF assms, of "(n + step - 1) div step" n] by simp
  then show ?thesis by simp
qed

lemma length_windows: "length (windows T c step) = (length T + step - 1) div step"
  by (simp add: windows_def)

lemma nth_windows:
  "i < (length T + step - 1) div step \<Longrightarrow> windows T c step ! i = take c (drop (i * step) T)"
  by (simp add: windows_def)

lemma windows_nonempty:
  assumes "0 < step" "0 < c" "i < length (windows T c step)"
  shows "windows T c step ! i \<noteq> []"
proof -
  have "i * step < length T"
    using assms window_count_bound[OF assms(1), of i "length T"] by (simp add: length_windows)
  then show ?thesis using assms by (simp add: nth_windows length_windows)
qed

lemma length_nth_windows:
  assumes "i < length (windows T c step)"
  shows "length (windows T c step ! i) = min c (length T - i * step)"
  using assms by (simp add: nth_windows length_windows min.commute)

lemma concat_blocks: "concat (map (\<lambda>i. take step (drop (i * step) T)) [0..<n]) = take (n * step) T"
proof (induction n)
  case 0
  show ?case by simp
next
  case (Suc n)
  have "take (n * step) T @ take step (drop (n * step) T) = take (n * step + step) T"
    by (simp add: take_add)
  then show ?case using Suc by (simp add: add.commute)
qed

lemma concat_windows_no_overlap:
  assumes "0 < step"
  shows "concat (windows T step step) = T"
  using window_count_covers[OF assms, of "length T"]
  by (simp add: windows_def concat_blocks)

lemma sum_list_mono_upt:
  assumes "\<And>i. i < n \<Longrightarrow> f i \<le> (g i :: nat)"
  shows "sum_list (map f [0..<n]) \<le> sum_list (map g [0..<n])"
  using assms by (induction n) (simp_all add: add_mono)

lemma windows_cover_length:
  assumes "0 < step" "step \<le> c"
  shows "length T \<le> sum_list (map length (windows T c step))"
proof -
  let ?n = "(length T + step - 1) div step"
  have "length T = length (concat (windows T step step))"
    by (simp only: concat_windows_no_overlap[OF assms(1)])
  also have "\<dots> = sum_list (map (\<lambda>i. length (take step (drop (i * step) T))) [0..<?n])"
    by (simp add: windows_def length_concat comp_def)
  also have "\<dots> \<le> sum_list (map (\<lambda>i. length (take c (drop (i * step) T))) [0..<?n])"
    by (rule sum_list_mono_upt) (use assms in simp)
  also have "\<dots> = sum_list (map length (windows T c step))"
    by (simp add: windows_def comp_def)
  finally show ?thesis .
qed

lemma last_windows:
  assumes "0 < step" "step \<le> c" "T \<noteq> []"
  shows "windows T c step \<noteq> [] \<and> last (windows T c step) \<noteq> [] \<and>
         last (last (windows T c step)) = last T"
proof -
  let ?n = "(length T + step - 1) div step"
  have "0 < ?n" using window_count_bound[OF assms(1), of 0 "length T"] assms(3) by simp
  then obtain m where m: "?n = Suc m" by (cases ?n) auto
  have len: "length (windows T c step) = Suc m" by (simp only: length_windows m)
  then have ne: "windows T c step \<noteq> []" by auto
  have lt: "m * step < length T"
    using window_count_bound[OF assms(1), of m "length T"] m by simp
  have "length T \<le> Suc m * step" using window_count_covers[OF assms(1), of "length T"] m by simp
  then have ge: "length T \<le> m * step + c" using assms(2) by simp
  have "last (windows T c step) = windows T c step ! m"
    using ne len by (simp add: last_conv_nth)
  also have "\<dots> = take c (drop (m * step) T)" using m by (simp add: nth_windows)
  also have "\<dots> = drop (m * step) T" using ge by simp
  finally have l: "last (windows T c step) = drop (m * step) T" .
  show ?thesis using ne lt by (simp add: l last_drop)
qed

lemma windows_overlap:
  assumes "step \<le> c" "Suc i < length (windows T c step)"
  shows "take (c - step) (windows T c step ! Suc i) = drop step (windows T c step ! i)"
proof -
  have "drop step (take c (drop (i * step) T)) = take (c - step) (drop (i * step + step) T)"
    by (simp add: drop_take add.commute)
  then show ?thesis using assms by (simp add: nth_windows length_windows add.commute min_def)
qed

lemma takeWhile_upt_less: "takeWhile (\<lambda>i. i < n) [0..<m] = [0..<min n m]"
proof -
  let ?k = "min n m"
  have split: "[0..<m] = [0..<?k] @ [?k..<m]"
    using upt_add_eq_append[of 0 ?k "m - ?k"] by simp
  have rest: "takeWhile (\<lambda>i. i < n) [?k..<m] = []"
  proof (cases "?k < m")
    case True
    then have "[?k..<m] = ?k # [Suc ?k..<m]" by (simp only: upt_conv_Cons)
    moreover have "\<not> ?k < n" using True by simp
    ultimately show ?thesis by simp
  next
    case False
    then show ?thesis by simp
  qed
  have "takeWhile (\<lambda>i. i < n) ([0..<?k] @ [?k..<m]) = [0..<?k] @ takeWhile (\<lambda>i. i < n) [?k..<m]"
    by (rule takeWhile_append2) simp
  then show ?thesis using split rest by simp
qed

lemma window_start_eq: "window_start chunk_size overlap i = int i * (chunk_size - overlap)"
  by (induction i) (simp_all add: algebra_simps)

lemma spec_windows_eq:
  assumes "overlap < chunk_size" "0 \<le> chunk_size"
  shows "spec_windows T chunk_size overlap = windows T (nat chunk_size) (nat (chunk_size - overlap))"
proof -
  let ?step = "nat (chunk_size - overlap)"
  let ?n = "(length T + ?step - 1) div ?step"
  have pos: "0 < ?step" using assms by simp
  have ws: "window_start chunk_size overlap i = int (i * ?step)" for i
    using assms by (simp add: window_start_eq)
  have pred: "(\<lambda>i. window_start chunk_size overlap i < int (length T)) = (\<lambda>i. i < ?n)"
    by (simp only: ws of_nat_less_iff window_count_bound[OF pos])
  have starts: "nat (window_start chunk_size overlap i) = i * ?step" for i
    by (simp only: ws nat_int)
  have "?n \<le> length T"
  proof -
    have "length T + ?step - 1 < Suc (length T) * ?step" using pos
      by (cases ?step) (simp_all add: algebra_simps)
    then have "?n < Suc (length T)" using pos by (simp only: div_less_iff_less_mult)
    then show ?thesis by simp
  qed
  then show ?thesis
    unfolding spec_windows_def windows_def
    by (simp only: pred starts takeWhile_upt_less min_absorb1)
qed

lemma chunk_loop_terminates:
  assumes "overlap < chunk_size"
  shows "\<exists>ys. chunk_loop T chunk_size overlap acc start = Some ys"
proof (induction "nat (int (length T) - start)" arbitrary: acc start rule: less_induct)
  case less
  show ?case
  proof (cases "start < int (length T)")
    case False
    then show ?thesis by (subst chunk_loop.simps) simp
  next
    case True
    have "nat (int (length T) - (start + chunk_size - overlap)) < nat (int (length T) - start)"
      using True assms by linarith
    from less[OF this]
    obtain ys where "chunk_loop T chunk_size overlap
        (acc @ [py_slice T start (start + chunk_size)]) (start + chunk_size - overlap) = Some ys"
      by blast
    then show ?thesis using True by (subst chunk_loop.simps) (simp add: Let_def)
  qed
qed

lemma chunk_text_empty: "chunk_text [] chunk_size overlap = Some []"
  unfolding chunk_text_def by (subst chunk_loop.simps) simp

lemma chunk_text_valid:
  assumes "0 \<le> overlap" "overlap < chunk_size"
  shows "chunk_text T chunk_size overlap = Some (windows T (nat chunk_size) (nat (chunk_size - overlap)))"
    and "0 < nat (chunk_size - overlap)"
    and "nat (chunk_size - overlap) \<le> nat chunk_size"
    and "nat chunk_size - nat (chunk_size - overlap) = nat overlap"
  using assms chunk_text_eq_windows[of overlap chunk_size T] by simp_all

subsection \<open>The claims about the chunker\<close>

text \<open>
  C3. For a window start that advances (\<open>overlap < chunk_size\<close>) and a chunk size that
  is not negative, \<open>chunk_text\<close> returns exactly the windows of the specification:
  window \<open>i\<close> covers \<open>[start\<^sub>i, start\<^sub>i + chunk_size)\<close> with \<open>start\<^sub>0 = 0\<close> and
  \<open>start\<^sub>i\<^sub>+\<^sub>1 = start\<^sub>i + chunk_size - overlap\<close>, the loop stops at the first start at or
  beyond the length of the text, and a window is cut at the end of the text. In
  particular the text \<open>abcdefghij\<close> with chunk size 4 and overlap 1 gives
  \<open>abcd\<close>, \<open>defg\<close>, \<open>ghij\<close>, \<open>j\<close>.
\<close>

theorem chunk_text_windows:
  "(overlap < chunk_size \<and> 0 \<le> chunk_size \<longrightarrow>
      chunk_text T chunk_size overlap = Some (spec_windows T chunk_size overlap)) \<and>
   chunk_text ''abcdefghij'' 4 1 = Some [''abcd'', ''defg'', ''ghij'', ''j'']"
proof
  show "overlap < chunk_size \<and> 0 \<le> chunk_size \<longrightarrow>
      chunk_text T chunk_size overlap = Some (spec_windows T chunk_size overlap)"
    by (simp add: chunk_text_eq_windows spec_windows_eq)
  show "chunk_text ''abcdefghij'' 4 1 = Some [''abcd'', ''defg'', ''ghij'', ''j'']"
    by (simp add: chunk_text_def chunk_loop.simps py_slice_def)
qed

theorem chunk_text_windows_witness:
  "(1::int) < 4 \<and> (0::int) \<le> 4 \<and>
   chunk_text ''abcdefghij'' 4 1 = Some (spec_windows ''abcdefghij'' 4 1) \<and>
   spec_windows ''abcdefghij'' 4 1 = [''abcd'', ''defg'', ''ghij'', ''j'']"
proof -
  have "chunk_text ''abcdefghij'' 4 1 = Some (spec_windows ''abcdefghij'' 4 1)"
    using chunk_text_windows[of 1 4 "''abcdefghij''"] by simp
  moreover have "chunk_text ''abcdefghij'' 4 1 = Some [''abcd'', ''defg'', ''ghij'', ''j'']"
    by (simp add: chunk_text_def chunk_loop.simps py_slice_def)
  ultimately show ?thesis by simp
qed

text \<open>
  C5, as the code has it. With \<open>overlap < chunk_size\<close> every pass of the loop moves the
  window start strictly forward and \<open>chunk_text\<close> returns for every text. With
  \<open>overlap \<ge> chunk_size\<close> nothing is raised and nothing guards the loop: the empty text
  gives the empty list and on every other text the call never returns.
\<close>

theorem chunk_text_termination:
  "(overlap < chunk_size \<longrightarrow> (\<exists>chunks. chunk_text T chunk_size overlap = Some chunks)) \<and>
   (overlap < chunk_size \<and> start < int (length T) \<longrightarrow>
      start < start + chunk_size - overlap \<and>
      chunk_loop T chunk_size overlap acc start =
        chunk_loop T chunk_size overlap (acc @ [py_slice T start (start + chunk_size)])
          (start + chunk_size - overlap)) \<and>
   (chunk_size \<le> overlap \<longrightarrow>
      chunk_text T chunk_size overlap = (if T = [] then Some [] else None))"
proof (intro conjI impI)
  assume "overlap < chunk_size"
  then show "\<exists>chunks. chunk_text T chunk_size overlap = Some chunks"
    unfolding chunk_text_def by (rule chunk_loop_terminates)
next
  assume "overlap < chunk_size \<and> start < int (length T)"
  then show "start < start + chunk_size - overlap" by simp
next
  assume "overlap < chunk_size \<and> start < int (length T)"
  then show "chunk_loop T chunk_size overlap acc start =
        chunk_loop T chunk_size overlap (acc @ [py_slice T start (start + chunk_size)])
          (start + chunk_size - overlap)"
    by (subst chunk_loop.simps) (simp add: Let_def)
next
  assume "chunk_size \<le> overlap"
  then show "chunk_text T chunk_size overlap = (if T = [] then Some [] else None)"
    by (simp add: chunk_text_empty chunk_text_diverges)
qed

theorem chunk_text_termination_witness:
  "(1::int) < 4 \<and> (0::int) < int (length ''abcdefghij'') \<and> (4::int) \<le> 4 \<and>
   chunk_text ''abcdefghij'' 4 1 = Some [''abcd'', ''defg'', ''ghij'', ''j''] \<and>
   (0::int) < 0 + 4 - 1 \<and>
   chunk_loop ''abcdefghij'' 4 1 [] 0 = chunk_loop ''abcdefghij'' 4 1 [''abcd''] 3 \<and>
   chunk_text ''abcdefghij'' 4 4 = None \<and>
   chunk_text ([] :: string) 4 4 = Some []"
proof -
  have a: "chunk_text ''abcdefghij'' 4 1 = Some [''abcd'', ''defg'', ''ghij'', ''j'']"
    by (simp add: chunk_text_def chunk_loop.simps py_slice_def)
  have b: "chunk_loop ''abcdefghij'' 4 1 [] 0 =
           chunk_loop ''abcdefghij'' 4 1 ([] @ [py_slice ''abcdefghij'' 0 (0 + 4)]) (0 + 4 - 1)"
    using chunk_text_termination[of 1 4 "''abcdefghij''" 0 "[]"] by simp
  have c: "chunk_text ''abcdefghij'' 4 4 = None"
    using chunk_text_termination[of 4 4 "''abcdefghij''" 0 "[]"] by simp
  have d: "chunk_text ([] :: string) 4 4 = Some []"
    using chunk_text_termination[of 4 4 "[] :: string" 0 "[]"] by simp
  have e: "py_slice ''abcdefghij'' 0 (0 + 4) = ''abcd''" by (simp add: py_slice_def)
  show ?thesis using a b c d e by simp
qed

theorem chunk_text_no_guard_counterexample:
  "chunk_text ''a'' 1 1 = None"
  by (rule chunk_text_diverges) simp_all

text \<open>
  C7, as the code has it. For \<open>0 \<le> overlap < chunk_size\<close> the lengths of the chunks add
  up to at least the length of the text, and for a text that is not empty the final chunk
  is not empty and ends with the last character of the text. A negative overlap leaves
  gaps between the windows, and with \<open>overlap \<ge> chunk_size\<close> there is no output.
\<close>

theorem chunk_text_coverage:
  assumes "0 \<le> overlap" "overlap < chunk_size"
  shows "\<exists>chunks. chunk_text T chunk_size overlap = Some chunks \<and>
           length T \<le> sum_list (map length chunks) \<and>
           (T \<noteq> [] \<longrightarrow> chunks \<noteq> [] \<and> last chunks \<noteq> [] \<and> last (last chunks) = last T)"
proof -
  note v = chunk_text_valid[OF assms]
  show ?thesis
    using windows_cover_length[OF v(2) v(3), of T] last_windows[OF v(2) v(3), of T]
    by (simp add: v(1))
qed

theorem chunk_text_coverage_witness:
  "(0::int) \<le> 1 \<and> (1::int) < 4 \<and> ''abcdefghij'' \<noteq> [] \<and>
   (\<exists>chunks. chunk_text ''abcdefghij'' 4 1 = Some chunks \<and>
      length ''abcdefghij'' \<le> sum_list (map length chunks) \<and>
      chunks \<noteq> [] \<and> last chunks \<noteq> [] \<and> last (last chunks) = last ''abcdefghij'')"
  using chunk_text_coverage[of 1 4 "''abcdefghij''"] by simp

theorem chunk_text_coverage_counterexample:
  "chunk_text ''abc'' 2 (- 1) = Some [''ab''] \<and>
   last (last [''ab'']) \<noteq> last ''abc'' \<and>
   sum_list (map length [''ab'']) < length ''abc'' \<and>
   chunk_text ''abc'' 2 2 = None"
proof -
  have "chunk_text ''abc'' 2 (- 1) = Some [''ab'']"
    by (simp add: chunk_text_def chunk_loop.simps py_slice_def)
  moreover have "chunk_text ''abc'' 2 2 = None"
    by (rule chunk_text_diverges) simp_all
  ultimately show ?thesis by simp
qed

text \<open>
  C8. For every text and every chunk size above zero, the chunks of \<open>chunk_text\<close> with
  overlap 0, concatenated in order, are the text.
\<close>

theorem chunk_text_roundtrip:
  assumes "0 < chunk_size"
  shows "\<exists>chunks. chunk_text T chunk_size 0 = Some chunks \<and> concat chunks = T"
proof -
  have "chunk_text T chunk_size 0 = Some (windows T (nat chunk_size) (nat chunk_size))"
    using chunk_text_eq_windows[of 0 chunk_size T] assms by simp
  moreover have "concat (windows T (nat chunk_size) (nat chunk_size)) = T"
    by (rule concat_windows_no_overlap) (use assms in simp)
  ultimately show ?thesis by simp
qed

theorem chunk_text_roundtrip_witness:
  "(0::int) < 4 \<and>
   (\<exists>chunks. chunk_text ''abcdefghij'' 4 0 = Some chunks \<and> concat chunks = ''abcdefghij'')"
  using chunk_text_roundtrip[of 4 "''abcdefghij''"] by simp

text \<open>
  C9, as the code has it. The empty text gives the empty list, whatever the
  configuration. For \<open>0 \<le> overlap < chunk_size\<close> every chunk is non-empty and at most
  \<open>chunk_size\<close> long, and chunk \<open>i\<close> has the length of its window cut at the end of the
  text, \<open>min(chunk_size, len(text) - i * (chunk_size - overlap))\<close>: a chunk is
  \<open>chunk_size\<close> long exactly when its window lies inside the text, and with an overlap
  above zero several trailing chunks can be shorter, not only the last one.
\<close>

theorem chunk_text_chunk_lengths:
  "chunk_text [] chunk_size overlap = Some [] \<and>
   (0 \<le> overlap \<and> overlap < chunk_size \<longrightarrow>
      (\<exists>chunks. chunk_text T chunk_size overlap = Some chunks \<and>
         (\<forall>i < length chunks.
            chunks ! i \<noteq> [] \<and> length (chunks ! i) \<le> nat chunk_size \<and>
            length (chunks ! i) = min (nat chunk_size) (length T - i * nat (chunk_size - overlap)))))"
proof (intro conjI impI)
  show "chunk_text [] chunk_size overlap = Some []" by (rule chunk_text_empty)
next
  assume a: "0 \<le> overlap \<and> overlap < chunk_size"
  then have a1: "0 \<le> overlap" and a2: "overlap < chunk_size" by simp_all
  note v = chunk_text_valid[OF a1 a2]
  have p: "0 < nat chunk_size" using a1 a2 by simp
  show "\<exists>chunks. chunk_text T chunk_size overlap = Some chunks \<and>
         (\<forall>i < length chunks.
            chunks ! i \<noteq> [] \<and> length (chunks ! i) \<le> nat chunk_size \<and>
            length (chunks ! i) = min (nat chunk_size) (length T - i * nat (chunk_size - overlap)))"
    using windows_nonempty[OF v(2) p, of _ T] length_nth_windows[of _ T]
    by (simp add: v(1))
qed

theorem chunk_text_chunk_lengths_witness:
  "(0::int) \<le> 2 \<and> (2::int) < 3 \<and>
   chunk_text ''abc'' 3 2 = Some [''abc'', ''bc'', ''c''] \<and>
   (1::nat) < length [''abc'', ''bc'', ''c''] \<and>
   [''abc'', ''bc'', ''c''] ! 1 \<noteq> [] \<and>
   length ([''abc'', ''bc'', ''c''] ! 1) \<le> nat 3 \<and>
   length ([''abc'', ''bc'', ''c''] ! 1) = min (nat 3) (length ''abc'' - 1 * nat (3 - 2))"
proof -
  have e: "chunk_text ''abc'' 3 2 = Some [''abc'', ''bc'', ''c'']"
    by (simp add: chunk_text_def chunk_loop.simps py_slice_def)
  have "(0::int) \<le> 2 \<and> (2::int) < 3" by simp
  with chunk_text_chunk_lengths[of 3 2 "''abc''"]
  obtain chunks where c: "chunk_text ''abc'' 3 2 = Some chunks"
    and l: "\<forall>i < length chunks.
          chunks ! i \<noteq> [] \<and> length (chunks ! i) \<le> nat 3 \<and>
          length (chunks ! i) = min (nat 3) (length ''abc'' - i * nat (3 - 2))"
    by blast
  from c e have chunks: "chunks = [''abc'', ''bc'', ''c'']" by simp
  have "(1::nat) < length chunks" by (simp add: chunks)
  with l have "chunks ! 1 \<noteq> [] \<and> length (chunks ! 1) \<le> nat 3 \<and>
          length (chunks ! 1) = min (nat 3) (length ''abc'' - 1 * nat (3 - 2))"
    by blast
  then show ?thesis using e unfolding chunks by simp
qed

theorem chunk_text_chunk_lengths_counterexample:
  "chunk_text ''abc'' 3 2 = Some [''abc'', ''bc'', ''c''] \<and>
   [''abc'', ''bc'', ''c''] ! 1 = ''bc'' \<and> Suc 1 < length [''abc'', ''bc'', ''c''] \<and>
   length ''bc'' \<noteq> nat 3"
  by (simp add: chunk_text_def chunk_loop.simps py_slice_def)

text \<open>
  C4, as the code has it. For \<open>0 \<le> overlap < chunk_size\<close> and every adjacent pair of
  chunks, the first \<open>overlap\<close> characters of chunk \<open>i + 1\<close> are chunk \<open>i\<close> without its
  first \<open>chunk_size - overlap\<close> characters; when chunk \<open>i\<close> has the full length
  \<open>chunk_size\<close> these are its last \<open>overlap\<close> characters. A chunk cut at the end of the
  text shares fewer characters with its successor.
\<close>

theorem chunk_text_overlap:
  assumes "0 \<le> overlap" "overlap < chunk_size"
  shows "\<exists>chunks. chunk_text T chunk_size overlap = Some chunks \<and>
           (\<forall>i. Suc i < length chunks \<longrightarrow>
              take (nat overlap) (chunks ! Suc i) = drop (nat (chunk_size - overlap)) (chunks ! i) \<and>
              (length (chunks ! i) = nat chunk_size \<longrightarrow>
                 drop (length (chunks ! i) - nat overlap) (chunks ! i) =
                 take (nat overlap) (chunks ! Suc i)))"
proof -
  note v = chunk_text_valid[OF assms]
  let ?ws = "windows T (nat chunk_size) (nat (chunk_size - overlap))"
  have "take (nat overlap) (?ws ! Suc i) = drop (nat (chunk_size - overlap)) (?ws ! i)"
    if "Suc i < length ?ws" for i
    using windows_overlap[OF v(3) that] by (simp only: v(4))
  moreover have "nat chunk_size - nat overlap = nat (chunk_size - overlap)"
    using assms by simp
  ultimately show ?thesis by (simp add: v(1))
qed

theorem chunk_text_overlap_witness:
  "(0::int) \<le> 1 \<and> (1::int) < 4 \<and>
   chunk_text ''abcdefghij'' 4 1 = Some [''abcd'', ''defg'', ''ghij'', ''j''] \<and>
   Suc 2 < length [''abcd'', ''defg'', ''ghij'', ''j''] \<and>
   length ([''abcd'', ''defg'', ''ghij'', ''j''] ! 2) = nat 4 \<and>
   take (nat 1) ([''abcd'', ''defg'', ''ghij'', ''j''] ! Suc 2) =
     drop (nat (4 - 1)) ([''abcd'', ''defg'', ''ghij'', ''j''] ! 2) \<and>
   drop (length ([''abcd'', ''defg'', ''ghij'', ''j''] ! 2) - nat 1)
        ([''abcd'', ''defg'', ''ghij'', ''j''] ! 2) =
     take (nat 1) ([''abcd'', ''defg'', ''ghij'', ''j''] ! Suc 2)"
proof -
  have e: "chunk_text ''abcdefghij'' 4 1 = Some [''abcd'', ''defg'', ''ghij'', ''j'']"
    by (simp add: chunk_text_def chunk_loop.simps py_slice_def)
  have h: "(0::int) \<le> 1" "(1::int) < 4" by simp_all
  from chunk_text_overlap[OF h, of "''abcdefghij''"]
  obtain chunks where c: "chunk_text ''abcdefghij'' 4 1 = Some chunks"
    and l: "\<forall>i. Suc i < length chunks \<longrightarrow>
          take (nat 1) (chunks ! Suc i) = drop (nat (4 - 1)) (chunks ! i) \<and>
          (length (chunks ! i) = nat 4 \<longrightarrow>
             drop (length (chunks ! i) - nat 1) (chunks ! i) = take (nat 1) (chunks ! Suc i))"
    by blast
  from c e have chunks: "chunks = [''abcd'', ''defg'', ''ghij'', ''j'']" by simp
  have s: "Suc 2 < length chunks" and f: "length (chunks ! 2) = nat 4" by (simp_all add: chunks)
  from l s f have "take (nat 1) (chunks ! Suc 2) = drop (nat (4 - 1)) (chunks ! 2) \<and>
      drop (length (chunks ! 2) - nat 1) (chunks ! 2) = take (nat 1) (chunks ! Suc 2)"
    by blast
  then show ?thesis using e s f unfolding chunks by simp
qed

theorem chunk_text_overlap_counterexample:
  "chunk_text ''abcde'' 4 3 = Some [''abcd'', ''bcde'', ''cde'', ''de'', ''e''] \<and>
   drop (length ''cde'' - 3) ''cde'' = ''cde'' \<and> take 3 ''de'' = ''de''"
  by (simp add: chunk_text_def chunk_loop.simps py_slice_def)

section \<open>Properties of the normalizer\<close>

subsection \<open>Generic facts about substitution\<close>






lemma benign_hyphen_break: "benign (m_hyphen_break U)"
  by (auto simp: benign_def m_hyphen_break_def Let_def split: if_splits
           dest!: set_takeWhileD set_dropWhileD dest: in_set_dropD)




subsection \<open>Whitespace collapsing\<close>









subsection \<open>Tightening hyphens\<close>

lemma hs_None:
  "m_hyphen_space U (c # r) = None \<Longrightarrow>
   re_sub (m_hyphen_space U) (c # r) = c # re_sub (m_hyphen_space U) r"
  by simp














subsection \<open>The normalizer applied to its own output\<close>








subsection \<open>The claim about the normalizer\<close>




section \<open>Properties of the fetcher\<close>

subsection \<open>Evaluating the examples\<close>

lemmas fixture_defs = w0_def rep_of_def doc_def source_of_def flaky_source_def empty_source_def
  pending_source_def other_kind_source_def three_doc_source_def three_doc_other_kind_source_def

lemmas eval_defs = get_file_text_content_def fetch_loop.simps first_entry_def download_url_def
  raise_for_status_def m_literal_def str_def clean_up_text_def unwanted_patterns_def
  m_hyphen_break_def m_u_escape_def m_hyphen_space_def m_whitespace_def ascii_tables_def
  re_w_def re_s_def re_hex_def


subsection \<open>One pass of the retry loop\<close>

lemma fetch_loop_delay:
  "fetch_loop U svc max_retries delay attempt file w =
   fetch_loop U svc max_retries delay' attempt file w"
proof (induction U svc max_retries delay attempt "file" w rule: fetch_loop.induct)
  case (1 U svc max_retries delay attempt f w)
  have L: "fetch_loop U svc max_retries delay attempt f w =
     (if attempt < max_retries then
        (let w1 = w\<lparr>lookups := Suc (lookups w)\<rparr> in
         case get_file_by_id svc (lookups w) (id_f f) of
           Inl e \<Rightarrow> (Inl e, w1)
         | Inr file' \<Rightarrow>
             (case representations file' of
                Some (rep # entries) \<Rightarrow> first_entry U svc file' rep w1
              | _ \<Rightarrow>
                  if attempt = max_retries - 1
                  then (Inl (RetriesExhausted (name file') max_retries), w1)
                  else fetch_loop U svc max_retries delay (attempt + 1) file' w1))
      else (Inr None, w))"
    by (rule fetch_loop.simps)
  have R: "fetch_loop U svc max_retries delay' attempt f w =
     (if attempt < max_retries then
        (let w1 = w\<lparr>lookups := Suc (lookups w)\<rparr> in
         case get_file_by_id svc (lookups w) (id_f f) of
           Inl e \<Rightarrow> (Inl e, w1)
         | Inr file' \<Rightarrow>
             (case representations file' of
                Some (rep # entries) \<Rightarrow> first_entry U svc file' rep w1
              | _ \<Rightarrow>
                  if attempt = max_retries - 1
                  then (Inl (RetriesExhausted (name file') max_retries), w1)
                  else fetch_loop U svc max_retries delay' (attempt + 1) file' w1))
      else (Inr None, w))"
    by (rule fetch_loop.simps)
  show ?case
    unfolding L R
    by (simp add: Let_def 1 split: sum.split option.split list.split)
qed

lemma fetch_loop_retry:
  assumes "attempt < max_retries - 1"
    and "get_file_by_id svc (lookups w) (id_f file) = Inr f"
    and "no_entries f"
  shows "fetch_loop U svc max_retries delay attempt file w =
         fetch_loop U svc max_retries delay (attempt + 1) f (w\<lparr>lookups := Suc (lookups w)\<rparr>)"
  using assms by (subst fetch_loop.simps) (auto simp: Let_def no_entries_def)

lemma fetch_loop_exhausted:
  assumes "attempt = max_retries - 1"
    and "get_file_by_id svc (lookups w) (id_f file) = Inr f"
    and "no_entries f"
  shows "fetch_loop U svc max_retries delay attempt file w =
         (Inl (RetriesExhausted (name f) max_retries), w\<lparr>lookups := Suc (lookups w)\<rparr>)"
  using assms by (subst fetch_loop.simps) (auto simp: Let_def no_entries_def)

lemma fetch_loop_entry:
  assumes "attempt < max_retries"
    and "get_file_by_id svc (lookups w) (id_f file) = Inr f"
    and "representations f = Some (rep # entries)"
  shows "fetch_loop U svc max_retries delay attempt file w =
         first_entry U svc f rep (w\<lparr>lookups := Suc (lookups w)\<rparr>)"
  using assms by (subst fetch_loop.simps) (auto simp: Let_def)

text \<open>After j attempts that saw no entry, the loop is at attempt j.\<close>

lemma fetch_loop_skip:
  assumes "int j < max_retries"
    and "\<forall>k < j. get_file_by_id svc (lookups w + k) fid = Inr (answers k) \<and>
                  id_f (answers k) = fid \<and> no_entries (answers k)"
    and "id_f file = fid"
  shows "fetch_loop U svc max_retries delay 0 file w =
         fetch_loop U svc max_retries delay (int j) (if j = 0 then file else answers (j - 1))
           (w\<lparr>lookups := lookups w + j\<rparr>)"
  using assms
proof (induction j)
  case 0
  show ?case by simp
next
  case (Suc j)
  have "fetch_loop U svc max_retries delay 0 file w =
        fetch_loop U svc max_retries delay (int j) (if j = 0 then file else answers (j - 1))
           (w\<lparr>lookups := lookups w + j\<rparr>)"
    using Suc by simp
  also have "\<dots> = fetch_loop U svc max_retries delay (int j + 1) (answers j)
           (w\<lparr>lookups := lookups w + j\<rparr>\<lparr>lookups := Suc (lookups (w\<lparr>lookups := lookups w + j\<rparr>))\<rparr>)"
  proof (rule fetch_loop_retry)
    show "int j < max_retries - 1" using Suc.prems(1) by simp
    have "id_f (if j = 0 then file else answers (j - 1)) = fid"
      using Suc.prems(2,3) by simp
    then show "get_file_by_id svc (lookups (w\<lparr>lookups := lookups w + j\<rparr>))
        (id_f (if j = 0 then file else answers (j - 1))) = Inr (answers j)"
      using Suc.prems(2) by simp
    show "no_entries (answers j)" using Suc.prems(2) by simp
  qed
  finally show ?case by (simp add: add.commute)
qed

subsection \<open>The claims about the fetcher\<close>

text \<open>
  C1, as the code has it. Let \<open>max_retries \<ge> 1\<close>. An attempt that is not the last and
  finds no representation entry counts as a failure and the loop goes round again. When
  the first \<open>max_retries - 1\<close> lookups find no entry and the last one finds none either,
  the call fails with the retries-exhausted error, which carries the name of the file and
  \<open>max_retries\<close>, after exactly \<open>max_retries\<close> lookups. When instead the last lookup
  lists a text representation first and its download succeeds, the call returns the
  cleaned-up downloaded text, again after exactly \<open>max_retries\<close> lookups and one
  download. The readiness state of a listed entry is never read.
\<close>

theorem fetch_retry_policy:
  assumes "1 \<le> max_retries"
    and "\<forall>k < nat max_retries - 1.
           get_file_by_id svc (lookups w + k) (id_f file) = Inr (answers k) \<and>
           id_f (answers k) = id_f file \<and> no_entries (answers k)"
    and "get_file_by_id svc (lookups w + (nat max_retries - 1)) (id_f file) = Inr final"
  shows "(\<forall>attempt f w'. attempt < max_retries - 1 \<and>
            get_file_by_id svc (lookups w') (id_f file) = Inr f \<and> no_entries f \<longrightarrow>
            fetch_loop U svc max_retries delay attempt file w' =
            fetch_loop U svc max_retries delay (attempt + 1) f (w'\<lparr>lookups := Suc (lookups w')\<rparr>)) \<and>
         (no_entries final \<longrightarrow>
            get_file_text_content U svc file max_retries delay w =
            (Inl (RetriesExhausted (name final) max_retries),
             w\<lparr>lookups := lookups w + nat max_retries\<rparr>)) \<and>
         (representations final = Some (rep # entries) \<and>
          representation rep = ''extracted_text'' \<and>
          requests_get svc (downloads w) (download_url svc rep) = Inr r \<and>
          \<not> (400 \<le> status_code r \<and> status_code r < 600) \<longrightarrow>
            get_file_text_content U svc file max_retries delay w =
            (Inr (Some (clean_up_text U (response_text r))),
             w\<lparr>lookups := lookups w + nat max_retries, downloads := Suc (downloads w)\<rparr>))"
proof -
  define j where "j = nat max_retries - 1"
  have j: "int j = max_retries - 1" "int j < max_retries" "Suc j = nat max_retries"
    using assms(1) by (simp_all add: j_def)
  let ?f = "if j = 0 then file else answers (j - 1)"
  let ?w = "w\<lparr>lookups := lookups w + j\<rparr>"
  have skip: "get_file_text_content U svc file max_retries delay w =
              fetch_loop U svc max_retries delay (int j) ?f ?w"
    unfolding get_file_text_content_def
    by (rule fetch_loop_skip[OF j(2) _ refl]) (use assms(2) in \<open>simp add: j_def\<close>)
  have idf: "id_f ?f = id_f file" using assms(2) by (simp add: j_def)
  have look: "get_file_by_id svc (lookups ?w) (id_f ?f) = Inr final"
    using assms(3) idf by (simp add: j_def)
  have exhausted: "get_file_text_content U svc file max_retries delay w =
            (Inl (RetriesExhausted (name final) max_retries),
             w\<lparr>lookups := lookups w + nat max_retries\<rparr>)" if "no_entries final"
    unfolding skip
    using fetch_loop_exhausted[OF j(1) look that, of U delay] j(3) by simp
  have ready: "get_file_text_content U svc file max_retries delay w =
            (Inr (Some (clean_up_text U (response_text r))),
             w\<lparr>lookups := lookups w + nat max_retries, downloads := Suc (downloads w)\<rparr>)"
    if "representations final = Some (rep # entries)" "representation rep = ''extracted_text''"
       "requests_get svc (downloads w) (download_url svc rep) = Inr r"
       "\<not> (400 \<le> status_code r \<and> status_code r < 600)"
    unfolding skip
    using fetch_loop_entry[OF j(2) look that(1), of U delay] that(2,3,4) j(3)
    by (simp add: first_entry_def raise_for_status_def Let_def)
  show ?thesis
    using exhausted ready by (auto intro: fetch_loop_retry)
qed

theorem fetch_retry_policy_witness:
  "get_file_text_content ascii_tables flaky_source (doc ''1'' ''1.txt'' None) 5 5 w0 =
     (Inr (Some (str ''text of u/?access_token=t'')), \<lparr> lookups = 5, downloads = 1, stdout = [] \<rparr>) \<and>
   get_file_text_content ascii_tables empty_source (doc ''1'' ''1.txt'' None) 5 5 w0 =
     (Inl (RetriesExhausted ''1.txt'' 5), \<lparr> lookups = 5, downloads = 0, stdout = [] \<rparr>) \<and>
   fetch_loop ascii_tables empty_source 5 5 0 (doc ''1'' ''1.txt'' None) w0 =
     fetch_loop ascii_tables empty_source 5 5 1 (doc ''1'' ''1.txt'' (Some [])) \<lparr> lookups = 1, downloads = 0, stdout = [] \<rparr>"
proof -
  let ?d = "doc ''1'' ''1.txt'' None"
  let ?rep = "rep_of ''extracted_text'' ''success''"
  let ?r = "\<lparr> status_code = 200, response_text = str ''text of '' @ str ''u/?access_token=t'' \<rparr>"
  have url: "download_url flaky_source ?rep = ''u/?access_token=t''"
    by (simp add: fixture_defs download_url_def m_literal_def)
  have clean: "clean_up_text ascii_tables (str ''text of '' @ str ''u/?access_token=t'') =
      str ''text of u/?access_token=t''"
    by (simp add: eval_defs)
  have one: "(1::int) \<le> 5" by simp
  have pend: "\<forall>k < nat 5 - 1.
           get_file_by_id flaky_source (lookups w0 + k) (id_f ?d) = Inr (doc ''1'' ''1.txt'' (Some [])) \<and>
           id_f (doc ''1'' ''1.txt'' (Some [])) = id_f ?d \<and> no_entries (doc ''1'' ''1.txt'' (Some []))"
    by (simp add: fixture_defs no_entries_def)
  have fin: "get_file_by_id flaky_source (lookups w0 + (nat 5 - 1)) (id_f ?d) =
      Inr (doc ''1'' ''1.txt'' (Some [?rep]))"
    by (simp add: fixture_defs)
  have a: "get_file_text_content ascii_tables flaky_source ?d 5 5 w0 =
     (Inr (Some (str ''text of u/?access_token=t'')), \<lparr> lookups = 5, downloads = 1, stdout = [] \<rparr>)"
    using fetch_retry_policy[OF one pend fin, where rep = ?rep and entries = "[]" and r = ?r and U = ascii_tables and delay = 5] url clean
    by (simp add: fixture_defs)
  have pend': "\<forall>k < nat 5 - 1.
           get_file_by_id empty_source (lookups w0 + k) (id_f ?d) = Inr (doc ''1'' ''1.txt'' (Some [])) \<and>
           id_f (doc ''1'' ''1.txt'' (Some [])) = id_f ?d \<and> no_entries (doc ''1'' ''1.txt'' (Some []))"
    by (simp add: fixture_defs no_entries_def)
  have fin': "get_file_by_id empty_source (lookups w0 + (nat 5 - 1)) (id_f ?d) =
      Inr (doc ''1'' ''1.txt'' (Some []))"
    by (simp add: fixture_defs)
  note t = fetch_retry_policy[OF one pend' fin', where rep = ?rep and entries = "[]" and r = ?r and U = ascii_tables and delay = 5]
  have b: "get_file_text_content ascii_tables empty_source ?d 5 5 w0 =
     (Inl (RetriesExhausted ''1.txt'' 5), \<lparr> lookups = 5, downloads = 0, stdout = [] \<rparr>)"
    using t by (simp add: fixture_defs no_entries_def)
  have "(0::int) < 5 - 1 \<and> get_file_by_id empty_source (lookups w0) (id_f ?d) =
          Inr (doc ''1'' ''1.txt'' (Some [])) \<and> no_entries (doc ''1'' ''1.txt'' (Some []))"
    by (simp add: fixture_defs no_entries_def)
  with t have "fetch_loop ascii_tables empty_source 5 5 0 ?d w0 =
     fetch_loop ascii_tables empty_source 5 5 (0 + 1) (doc ''1'' ''1.txt'' (Some []))
       (w0\<lparr>lookups := Suc (lookups w0)\<rparr>)"
    by blast
  then have c: "fetch_loop ascii_tables empty_source 5 5 0 ?d w0 =
     fetch_loop ascii_tables empty_source 5 5 1 (doc ''1'' ''1.txt'' (Some []))
       \<lparr> lookups = 1, downloads = 0, stdout = [] \<rparr>"
    by (simp add: w0_def)
  show ?thesis using a b c by simp
qed

theorem fetch_not_ready_counterexample:
  "get_file_text_content ascii_tables pending_source (doc ''1'' ''1.txt'' None) 5 5 w0 =
     (Inr (Some (str ''text of u/?access_token=t'')), \<lparr> lookups = 1, downloads = 1, stdout = [] \<rparr>) \<and>
   get_file_text_content ascii_tables other_kind_source (doc ''1'' ''1.txt'' None) 5 5 w0 =
     (Inl (NotReady ''1''), \<lparr> lookups = 1, downloads = 0, stdout = [NotReadyLine ''1''] \<rparr>)"
  by (simp add: fixture_defs eval_defs)

text \<open>
  C10. The result of \<open>get_file_text_content\<close>, its returned text or error and the
  world it leaves, is the same for any two values of \<open>delay\<close>.
\<close>

theorem fetch_ignores_delay:
  "get_file_text_content U svc file max_retries delay w =
   get_file_text_content U svc file max_retries delay' w"
  unfolding get_file_text_content_def by (rule fetch_loop_delay)

section \<open>Properties of the pipeline\<close>

subsection \<open>What one fetch prints and returns\<close>






subsection \<open>The body of the loop\<close>













end
